theory Spec2Isabelle
  imports Complex_Main "HOL-Library.Multiset" "HOL-Library.Product_Lexorder"
    "HOL-Library.Char_ord" "HOL-Library.List_Lexorder"
begin

section \<open>Data model\<close>

text \<open>
  The script \<^verbatim>\<open>program_11.py\<close> works on pandas tables. A float column is modelled as a
  list of \<open>real option\<close>, where \<open>None\<close> stands for NaN (the missing marker) and the
  arithmetic is the exact arithmetic of the reals. A timestamp of a daily record is the
  triple (year, month, day), ordered lexicographically.
\<close>

datatype py_error = ZeroDivisionError | TypeError | KeyError

type_synonym date = "nat \<times> nat \<times> nat"

definition month :: "date \<Rightarrow> nat" where
  "month d = fst (snd d)"

fun dropna :: "real option list \<Rightarrow> real list" where
  "dropna [] = []"
| "dropna (None # vs) = dropna vs"
| "dropna (Some x # vs) = x # dropna vs"

definition isna_sum :: "real option list \<Rightarrow> nat" where
  "isna_sum vs = length (filter (\<lambda>v. v = None) vs)"

section \<open>Exceedance probability (lines 186 to 198 of the script)\<close>

text \<open>
  \<^verbatim>\<open>peak.sort_values(ascending=False)\<close>: the numbers in descending order, the missing
  entries after them (pandas' default \<^verbatim>\<open>na_position='last'\<close>). Only the values of the
  sorted series are plotted, so the model keeps the values and not their date labels.
\<close>

definition sort_values_desc :: "real option list \<Rightarrow> real option list" where
  "sort_values_desc s = map Some (rev (sort (dropna s))) @ filter (\<lambda>v. v = None) s"

text \<open>Python's \<^verbatim>\<open>a / b\<close> on integers: true division, raising on a zero divisor.\<close>

definition py_truediv :: "nat \<Rightarrow> nat \<Rightarrow> py_error + real" where
  "py_truediv a b = (if b = 0 then Inl ZeroDivisionError else Inr (real a / real b))"

text \<open>
  \<^verbatim>\<open>for i in range(len(peak)): pp.append((i+1)/len(peak))\<close>: the loop over the indices,
  with the list built so far as accumulator.
\<close>

fun pp_loop :: "nat list \<Rightarrow> nat \<Rightarrow> real list \<Rightarrow> py_error + real list" where
  "pp_loop [] n pp = Inr pp"
| "pp_loop (i # is) n pp =
     (case py_truediv (i + 1) n of
        Inl e \<Rightarrow> Inl e
      | Inr q \<Rightarrow> pp_loop is n (pp @ [q]))"

definition plotting_positions :: "real option list \<Rightarrow> py_error + real list" where
  "plotting_positions peak = pp_loop [0..<length peak] (length peak) []"

definition exceedance :: "real option list \<Rightarrow> py_error + (real list \<times> real option list)" where
  "exceedance peak =
     (let peak' = sort_values_desc peak in
      case plotting_positions peak' of
        Inl e \<Rightarrow> Inl e
      | Inr pp \<Rightarrow> Inr (pp, peak'))"

text \<open>
  The order of a sorted series: a number is followed by numbers that are not larger or by
  missing entries, a missing entry only by missing entries.
\<close>

fun desc_na_last :: "real option \<Rightarrow> real option \<Rightarrow> bool" where
  "desc_na_last (Some x) (Some y) = (y \<le> x)"
| "desc_na_last None (Some y) = False"
| "desc_na_last v None = True"

section \<open>Record Reader: \<^verbatim>\<open>ReadData\<close> (lines 19 to 46)\<close>

text \<open>
  A row of a table has the columns named on line 32, apart from \<^verbatim>\<open>Date\<close>, which line 38
  makes the index: a table is a list of pairs of a date and a row. The type of the
  \<^verbatim>\<open>Discharge\<close> column is a parameter: a field of the file before parsing, a float after.
\<close>

record 'v obs =
  agency_cd :: string
  site_no :: string
  Discharge :: 'v
  Quality :: string

text \<open>A row of station 03335000 (Wildcat Creek) with an approved value.\<close>

definition wildcat_row :: "'v \<Rightarrow> 'v obs" where
  "wildcat_row v = \<lparr>agency_cd = ''USGS'', site_no = ''03335000'', Discharge = v, Quality = ''A''\<rparr>"

text \<open>
  A discharge field of the file: a number, the sentinel \<^verbatim>\<open>Eqp\<close> of \<^verbatim>\<open>na_values\<close>, one of
  the markers pandas reads as missing by default, or any other text.
\<close>

datatype token = Num real | Eqp | NA | Other string

type_synonym file_rows = "(date \<times> token obs) list"
type_synonym DataDF = "(date \<times> real option obs) list"

text \<open>
  \<^verbatim>\<open>pd.read_csv(..., na_values=['Eqp'])\<close> followed by \<^verbatim>\<open>set_index('Date')\<close>, on the rows
  that are left after the header and the comment lines. A field that is neither a number
  nor a missing marker leaves the column as text, and the comparison with 0 on line 41
  then raises TypeError; the model raises at the field.
\<close>

fun to_float :: "token \<Rightarrow> py_error + real option" where
  "to_float (Num x) = Inr (Some x)"
| "to_float Eqp = Inr None"
| "to_float NA = Inr None"
| "to_float (Other s) = Inl TypeError"

fun read_csv :: "file_rows \<Rightarrow> py_error + DataDF" where
  "read_csv [] = Inr []"
| "read_csv ((d, r) # rest) =
     (case to_float (Discharge r) of
        Inl e \<Rightarrow> Inl e
      | Inr v \<Rightarrow>
          (case read_csv rest of
             Inl e \<Rightarrow> Inl e
           | Inr df \<Rightarrow>
               Inr ((d, \<lparr>agency_cd = agency_cd r, site_no = site_no r,
                         Discharge = v, Quality = Quality r\<rparr>) # df)))"

text \<open>Line 41: \<^verbatim>\<open>DataDF['Discharge'].loc[DataDF['Discharge'] < 0] = np.NaN\<close>.\<close>

definition gross_error_check :: "real option \<Rightarrow> real option" where
  "gross_error_check v = (case v of None \<Rightarrow> None | Some x \<Rightarrow> if x < 0 then None else Some x)"

definition remove_negative :: "DataDF \<Rightarrow> DataDF" where
  "remove_negative df =
     map (\<lambda>(d, r). (d, r\<lparr>Discharge := gross_error_check (Discharge r)\<rparr>)) df"

text \<open>Lines 44 and 57: \<^verbatim>\<open>DataDF["Discharge"].isna().sum()\<close>.\<close>

definition missing_values :: "DataDF \<Rightarrow> nat" where
  "missing_values df = isna_sum (map (\<lambda>(d, r). Discharge r) df)"

definition ReadData :: "file_rows \<Rightarrow> py_error + (DataDF \<times> nat)" where
  "ReadData fileRows =
     (case read_csv fileRows of
        Inl e \<Rightarrow> Inl e
      | Inr df0 \<Rightarrow>
          (let df = remove_negative df0;
               MissingValues = missing_values df
           in Inr (df, MissingValues)))"

text \<open>The fields that end up missing: the missing markers, and the negative numbers.\<close>

fun is_marker :: "token \<Rightarrow> bool" where
  "is_marker Eqp = True"
| "is_marker NA = True"
| "is_marker t = False"

fun is_negative :: "token \<Rightarrow> bool" where
  "is_negative (Num x) = (x < 0)"
| "is_negative t = False"

section \<open>Range Clipper: \<^verbatim>\<open>ClipData\<close> (lines 48 to 59)\<close>

text \<open>
  \<^verbatim>\<open>DataDF[startDate:endDate]\<close> is a label slice of the date index, as pandas 1.x
  evaluates it. A bound is a date string, as in the calls of lines 111 and 112, or a
  timestamp, as in the slices of lines 124 and 125.
\<close>

datatype bound = DateString date | Timestamp date

datatype side = Left | Right

fun is_str :: "bound \<Rightarrow> bool" where
  "is_str (DateString d) = True"
| "is_str (Timestamp d) = False"

fun bound_date :: "bound \<Rightarrow> date" where
  "bound_date (DateString d) = d"
| "bound_date (Timestamp d) = d"

text \<open>
  A point in time is a date and a flag that is false for midnight, where every entry of a
  daily index lies, and true for the last instant of the day. A timestamp is the label it
  is; a date string stands for its whole day, so it is cast to the midnight as a left
  bound and to the last instant as a right bound.
\<close>

type_synonym instant = "date \<times> bool"

fun cast_slice_bound :: "bound \<Rightarrow> side \<Rightarrow> instant" where
  "cast_slice_bound (Timestamp d) sd = (d, False)"
| "cast_slice_bound (DateString d) Left = (d, False)"
| "cast_slice_bound (DateString d) Right = (d, True)"

text \<open>
  The position of a label that occurs in the index: where its occurrences start, as a
  left bound, and where they end, as a right bound. Occurrences that do not form one
  block give no position (\<^verbatim>\<open>Cannot get slice bound for non-unique label\<close>).
\<close>

definition get_loc_bound :: "instant list \<Rightarrow> instant \<Rightarrow> side \<Rightarrow> py_error + nat" where
  "get_loc_bound idx x sd =
     (let front = takeWhile (\<lambda>t. t \<noteq> x) idx;
          back = dropWhile (\<lambda>t. t \<noteq> x) idx;
          block = takeWhile (\<lambda>t. t = x) back;
          others = dropWhile (\<lambda>t. t = x) back
      in if x \<in> set others then Inl KeyError
         else Inr (case sd of Left \<Rightarrow> length front
                            | Right \<Rightarrow> length front + length block))"

text \<open>
  The position of a label that does not occur: the insertion point that keeps a
  monotonic index in order, found from the left in an increasing index and, with
  the order reversed, in a decreasing one. No order, no position.
\<close>

definition searchsorted_monotonic :: "instant list \<Rightarrow> instant \<Rightarrow> side \<Rightarrow> py_error + nat" where
  "searchsorted_monotonic idx x sd =
     (if sorted idx then
        Inr (case sd of Left \<Rightarrow> length (takeWhile (\<lambda>t. t < x) idx)
                      | Right \<Rightarrow> length (takeWhile (\<lambda>t. t \<le> x) idx))
      else if sorted (rev idx) then
        Inr (case sd of Left \<Rightarrow> length (takeWhile (\<lambda>t. x < t) idx)
                      | Right \<Rightarrow> length (takeWhile (\<lambda>t. x \<le> t) idx))
      else Inl KeyError)"

definition get_slice_bound :: "instant list \<Rightarrow> instant \<Rightarrow> side \<Rightarrow> py_error + nat" where
  "get_slice_bound idx x sd =
     (if x \<in> set idx then get_loc_bound idx x sd else searchsorted_monotonic idx x sd)"

definition slice_locs :: "instant list \<Rightarrow> bound \<Rightarrow> bound \<Rightarrow> py_error + (nat \<times> nat)" where
  "slice_locs idx startDate endDate =
     (case get_slice_bound idx (cast_slice_bound startDate Left) Left of
        Inl e \<Rightarrow> Inl e
      | Inr lo \<Rightarrow>
          (case get_slice_bound idx (cast_slice_bound endDate Right) Right of
             Inl e \<Rightarrow> Inl e
           | Inr hi \<Rightarrow> Inr (lo, hi)))"

text \<open>
  The slice of a date index: between the positions of the two bounds when a bound is a
  timestamp or the index is in increasing order; by the mask of the dates from the start
  to the end when both bounds are date strings and the index is not in increasing order.
  A slice whose end position is not after its start position has no row. For date strings
  on an index in decreasing order the releases of pandas 1.x differ in how they cast the
  bounds; the model follows the last ones, and the properties below leave that case out.
\<close>

definition slice_rows :: "DataDF \<Rightarrow> bound \<Rightarrow> bound \<Rightarrow> py_error + DataDF" where
  "slice_rows df startDate endDate =
     (let idx = map (\<lambda>(d, r). (d, False)) df in
      if \<not> is_str startDate \<or> \<not> is_str endDate \<or> sorted idx then
        (case slice_locs idx startDate endDate of
           Inl e \<Rightarrow> Inl e
         | Inr (lo, hi) \<Rightarrow> Inr (if hi \<le> lo then [] else take (hi - lo) (drop lo df)))
      else
        Inr (filter (\<lambda>(d, r). cast_slice_bound startDate Left \<le> (d, False)
                             \<and> (d, False) \<le> cast_slice_bound endDate Right) df))"

definition ClipData :: "DataDF \<Rightarrow> bound \<Rightarrow> bound \<Rightarrow> py_error + (DataDF \<times> nat)" where
  "ClipData df startDate endDate =
     (case slice_rows df startDate endDate of
        Inl e \<Rightarrow> Inl e
      | Inr df' \<Rightarrow>
          (let MissingValues = missing_values df'
           in Inr (df', MissingValues)))"

text \<open>The discharge invariant of the data model: a value is missing or not negative.\<close>

definition valid_discharge :: "real option \<Rightarrow> bool" where
  "valid_discharge v = (case v of None \<Rightarrow> True | Some x \<Rightarrow> 0 \<le> x)"

text \<open>The dates of a table that lie in the window, and the rows at those dates.\<close>

definition in_window :: "date \<Rightarrow> date \<Rightarrow> date \<Rightarrow> bool" where
  "in_window startDate endDate d = (startDate \<le> d \<and> d \<le> endDate)"

definition rows_in_window :: "DataDF \<Rightarrow> date \<Rightarrow> date \<Rightarrow> DataDF" where
  "rows_in_window df startDate endDate = filter (\<lambda>(d, r). in_window startDate endDate d) df"

section \<open>Monthly Averager: \<^verbatim>\<open>GetMonthlyAverages\<close> (lines 72 to 91)\<close>

text \<open>
  A row of the metrics table: the station abbreviation and the value of every named
  statistic. The table lists the labels of its columns, in order; the column
  \<^verbatim>\<open>Station\<close> is the text column, every other column is a statistic.
\<close>

record metrics =
  Station :: string
  stat :: "string \<Rightarrow> real option"

record metrics_df =
  columns :: "string list"
  rows :: "(date \<times> metrics) list"

definition stat_columns :: "metrics_df \<Rightarrow> string list" where
  "stat_columns df = filter (\<lambda>c. c \<noteq> ''Station'') (columns df)"

type_synonym series = "(string \<times> real option) list"

text \<open>\<^verbatim>\<open>dates.month == (i+1)\<close> and the selection \<^verbatim>\<open>MoDataDF.loc[mask]\<close>.\<close>

definition month_mask :: "date list \<Rightarrow> nat \<Rightarrow> bool list" where
  "month_mask dates m = map (\<lambda>d. month d = m) dates"

definition loc_mask :: "metrics_df \<Rightarrow> bool list \<Rightarrow> metrics_df" where
  "loc_mask df msk = df\<lparr>rows := map fst (filter snd (zip (rows df) msk))\<rparr>"

text \<open>
  \<^verbatim>\<open>DataFrame.mean()\<close>, as pandas 1.x evaluates it: a series labelled by column names.
  On a selection with rows, every statistic column gives the mean of its entries that
  are not missing, missing when there is none, and the text column, whose mean fails, is
  left out. On a selection without rows no mean fails: every column of the table,
  \<^verbatim>\<open>Station\<close> too, gives a missing value.
\<close>

definition nanmean :: "real option list \<Rightarrow> real option" where
  "nanmean vs =
     (let xs = dropna vs in if xs = [] then None else Some (sum_list xs / real (length xs)))"

definition mean_df :: "metrics_df \<Rightarrow> series" where
  "mean_df df =
     (if rows df = [] then map (\<lambda>c. (c, None)) (columns df)
      else map (\<lambda>c. (c, nanmean (map (\<lambda>(d, r). stat r c) (rows df)))) (stat_columns df))"

text \<open>The loop of lines 80 and 81, with \<^verbatim>\<open>MonthAVG\<close> as accumulator.\<close>

fun month_loop :: "metrics_df \<Rightarrow> nat list \<Rightarrow> series list \<Rightarrow> series list" where
  "month_loop df [] MonthAVG = MonthAVG"
| "month_loop df (i # is) MonthAVG =
     month_loop df is
       (MonthAVG @ [mean_df (loc_mask df (month_mask (map fst (rows df)) (i + 1)))])"

text \<open>
  \<^verbatim>\<open>pd.DataFrame\<close> of a dictionary of series: the keys become the column labels, in the
  order written. The row labels are those of the first series when all series have the
  same labels, and otherwise the labels of all series without repetition, sorted. Every
  series is aligned to the row labels, a label it does not have giving a missing value.
\<close>

definition union_indexes :: "string list list \<Rightarrow> string list" where
  "union_indexes idxs =
     (case idxs of
        [] \<Rightarrow> []
      | i # others \<Rightarrow>
          if list_all (\<lambda>j. j = i) others then i else sort (remdups (concat idxs)))"

definition reindex :: "series \<Rightarrow> string list \<Rightarrow> series" where
  "reindex s idx = map (\<lambda>l. (l, case map_of s l of None \<Rightarrow> None | Some v \<Rightarrow> v)) idx"

definition DataFrame :: "(nat \<times> series) list \<Rightarrow> (nat \<times> series) list" where
  "DataFrame d =
     (let idx = union_indexes (map (\<lambda>(k, s). map fst s) d)
      in map (\<lambda>(k, s). (k, reindex s idx)) d)"

text \<open>Lines 84 to 89: the table of the twelve series, under the keys 1 to 12.\<close>

definition GetMonthlyAverages :: "metrics_df \<Rightarrow> (nat \<times> series) list" where
  "GetMonthlyAverages MoDataDF =
     (let MonthAVG = month_loop MoDataDF [0..<12] []
      in DataFrame
         [(1, MonthAVG ! 0), (2, MonthAVG ! 1),
          (3, MonthAVG ! 2), (4, MonthAVG ! 3),
          (5, MonthAVG ! 4), (6, MonthAVG ! 5),
          (7, MonthAVG ! 6), (8, MonthAVG ! 7),
          (9, MonthAVG ! 8), (10, MonthAVG ! 9),
          (11, MonthAVG ! 10), (12, MonthAVG ! 11)])"

text \<open>
  The cell of a statistic and a month in the averaged table: \<open>None\<close> when the table has
  no such cell, \<open>Some None\<close> for a missing cell.
\<close>

definition cell :: "(nat \<times> series) list \<Rightarrow> string \<Rightarrow> nat \<Rightarrow> real option option" where
  "cell avg c m = (case map_of avg m of None \<Rightarrow> None | Some s \<Rightarrow> map_of s c)"

text \<open>
  The specification's words: the bucket of a statistic and a calendar month holds the
  values of that statistic, in the rows of that month, that are not missing; the cell is
  their arithmetic mean.
\<close>

definition bucket :: "metrics_df \<Rightarrow> string \<Rightarrow> nat \<Rightarrow> real list" where
  "bucket df c m = dropna (map (\<lambda>(d, r). stat r c) (filter (\<lambda>(d, r). month d = m) (rows df)))"

definition arithmetic_mean :: "real list \<Rightarrow> real" where
  "arithmetic_mean xs = sum_list xs / real (length xs)"

section \<open>Chart Renderer: the files written by the script (lines 119 to 212)\<close>

text \<open>
  The script writes through \<^verbatim>\<open>plt.savefig\<close> only. The state of the plotting library that
  decides how a file is rendered is the font size of \<^verbatim>\<open>rcParams\<close> and the size of the
  current figure; the files written are kept in the order of the calls.
\<close>

record png =
  file_name :: string
  dpi :: nat
  figsize :: "real \<times> real"
  font_size :: nat

record plt =
  rc_font_size :: nat
  current_figsize :: "real \<times> real"
  written :: "png list"

definition rcParams_update :: "nat \<Rightarrow> plt \<Rightarrow> plt" where
  "rcParams_update n s = s\<lparr>rc_font_size := n\<rparr>"

definition figure :: "real \<times> real \<Rightarrow> plt \<Rightarrow> plt" where
  "figure sz s = s\<lparr>current_figsize := sz\<rparr>"

definition savefig :: "string \<Rightarrow> nat \<Rightarrow> plt \<Rightarrow> plt" where
  "savefig name d s =
     s\<lparr>written := written s @
         [\<lparr>file_name = name, dpi = d, figsize = current_figsize s,
           font_size = rc_font_size s\<rparr>]\<rparr>"

text \<open>
  The calls of the main block that touch this state, in the order of the source. The
  drawing calls between \<^verbatim>\<open>plt.figure\<close> and \<^verbatim>\<open>plt.savefig\<close> change neither the font
  size nor the figure size and write no file.
\<close>

definition main_charts :: "plt \<Rightarrow> plt" where
  "main_charts s0 =
     (let s = rcParams_update 20 s0;
          s = figure (9, 6.5) s;
          s = savefig ''DailyDischarge5Year.png'' 96 s;
          s = figure (9, 6.5) s;
          s = savefig ''AnnualCoeffVar.png'' 96 s;
          s = figure (9, 6.5) s;
          s = savefig ''AnnualTQmean.png'' 96 s;
          s = figure (9, 6.5) s;
          s = savefig ''AnnualRBindex.png'' 96 s;
          s = figure (9, 6.5) s;
          s = savefig ''MonthlyMeanFlow.png'' 96 s;
          s = figure (9, 6.5) s;
          s = savefig ''ExceedanceProbability.png'' 96 s
      in s)"

section \<open>Properties of the exceedance ranking\<close>

lemma pp_loop_eq:
  "is = [] \<or> n \<noteq> 0 \<Longrightarrow>
   pp_loop is n pp = Inr (pp @ map (\<lambda>i. real (i + 1) / real n) is)"
  by (induction "is" arbitrary: pp) (auto simp: py_truediv_def)

lemma plotting_positions_eq:
  "plotting_positions peak =
     Inr (map (\<lambda>i. real (i + 1) / real (length peak)) [0..<length peak])"
  unfolding plotting_positions_def
  by (subst pp_loop_eq) auto

lemma mset_dropna:
  "image_mset Some (mset (dropna s)) + mset (filter (\<lambda>v. v = None) s) = mset s"
  by (induction s rule: dropna.induct) auto

lemma length_dropna:
  "length (dropna s) + length (filter (\<lambda>v. v = None) s) = length s"
  by (induction s rule: dropna.induct) auto

lemma mset_sort_values_desc: "mset (sort_values_desc s) = mset s"
  using mset_dropna [of s] by (simp add: sort_values_desc_def)

lemma length_sort_values_desc: "length (sort_values_desc s) = length s"
  using length_dropna [of s] by (simp add: sort_values_desc_def)

lemma sorted_sort_values_desc: "sorted_wrt desc_na_last (sort_values_desc s)"
proof -
  have "sorted_wrt (\<lambda>x y. y \<le> x) (rev (sort (dropna s)))"
    by (simp add: sorted_wrt_rev)
  then have "sorted_wrt desc_na_last (map Some (rev (sort (dropna s))))"
    by (simp add: sorted_wrt_map)
  moreover have "sorted_wrt desc_na_last (filter (\<lambda>v. v = None) s)"
    by (induction s) (auto)
  ultimately show ?thesis
    by (auto simp: sort_values_desc_def sorted_wrt_append)
qed

text \<open>
  Claim C1. For a series of \<open>n > 0\<close> peak flows the ranking returns the values in
  descending order (a rearrangement of the input, missing entries last) and as many
  plotting positions, the one at rank \<open>i\<close> (counted from 1) being \<open>i / n\<close>: the positions
  increase strictly, lie in (0, 1], start at \<open>1 / n\<close> and end at 1. The peak flows
  100, 50, 75 give the values 100, 75, 50 at the positions 1/3, 2/3, 1.
\<close>

theorem exceedance_ranker:
  assumes "peak \<noteq> []"
  shows "\<exists>pp vs. exceedance peak = Inr (pp, vs)
      \<and> length vs = length peak \<and> length pp = length peak
      \<and> mset vs = mset peak \<and> sorted_wrt desc_na_last vs
      \<and> (\<forall>i < length peak. pp ! i = real (i + 1) / real (length peak))
      \<and> sorted_wrt (\<lambda>p q. p < q) pp
      \<and> (\<forall>p \<in> set pp. 0 < p \<and> p \<le> 1)
      \<and> hd pp = 1 / real (length peak) \<and> last pp = 1
      \<and> exceedance [Some 100, Some 50, Some 75]
          = Inr ([1 / 3, 2 / 3, 1], [Some 100, Some 75, Some 50])"
proof -
  let ?n = "length peak"
  let ?pp = "map (\<lambda>i. real (i + 1) / real ?n) [0..<?n]"
  let ?vs = "sort_values_desc peak"
  from assms have n: "0 < ?n" by simp
  have ex: "exceedance peak = Inr (?pp, ?vs)"
    by (simp add: exceedance_def plotting_positions_eq length_sort_values_desc)
  have incr: "sorted_wrt (\<lambda>p q. p < q) ?pp"
    using n by (simp add: sorted_wrt_map divide_strict_right_mono sorted_wrt_iff_nth_less)
  have rng: "\<forall>p \<in> set ?pp. 0 < p \<and> p \<le> 1"
    using n by auto
  have first: "hd ?pp = 1 / real ?n"
    using n by (simp add: hd_map upt_conv_Cons)
  have lst: "last ?pp = 1"
  proof -
    from n obtain m where m: "?n = Suc m" by (cases ?n) auto
    show ?thesis unfolding m by (simp del: of_nat_Suc)
  qed
  have scenario: "exceedance [Some 100, Some 50, Some 75]
      = Inr ([1 / 3, 2 / 3, 1], [Some 100, Some 75, Some 50])"
    by (simp add: exceedance_def plotting_positions_def sort_values_desc_def
        py_truediv_def upt_rec)
  show ?thesis
    using ex incr rng first lst scenario
    by (intro exI [of _ ?pp] exI [of _ ?vs])
       (simp add: length_sort_values_desc mset_sort_values_desc sorted_sort_values_desc)
qed

theorem exceedance_ranker_witness:
  "[Some 3, None, Some 8, Some 3] \<noteq> [] \<and>
   (\<exists>pp vs. exceedance [Some 3, None, Some 8, Some 3] = Inr (pp, vs)
      \<and> pp = [1 / 4, 1 / 2, 3 / 4, 1] \<and> vs = [Some 8, Some 3, Some 3, None]
      \<and> sorted_wrt desc_na_last vs \<and> sorted_wrt (\<lambda>p q. p < q) pp
      \<and> hd pp = 1 / 4 \<and> last pp = 1)"
proof -
  have h: "[Some 3, None, Some 8, Some (3::real)] \<noteq> []" by simp
  have e: "exceedance [Some 3, None, Some 8, Some 3]
      = Inr ([1 / 4, 1 / 2, 3 / 4, 1], [Some 8, Some 3, Some 3, None])"
    by (simp add: exceedance_def plotting_positions_def sort_values_desc_def
        py_truediv_def upt_rec)
  from exceedance_ranker [OF h] e show ?thesis by auto
qed

text \<open>
  Claim C10. For an empty series the loop body never runs: the positions are the empty
  list and no division takes place. For a series of any length the computation ends
  without a division by zero.
\<close>

theorem plotting_positions_no_zero_division:
  "plotting_positions [] = Inr []
   \<and> pp_loop [0..<0] 0 [] = Inr []
   \<and> (\<forall>peak. \<exists>pp. plotting_positions peak = Inr pp \<and> length pp = length peak)
   \<and> (\<forall>peak. plotting_positions peak \<noteq> Inl ZeroDivisionError)"
  by (simp add: plotting_positions_eq)

theorem plotting_positions_no_zero_division_witness:
  "plotting_positions [Some 7, None] \<noteq> Inl ZeroDivisionError \<and> plotting_positions [] = Inr []"
  using plotting_positions_no_zero_division by blast

section \<open>Properties of the record reader\<close>

lemma read_csv_rows:
  "read_csv fileRows = Inr df \<Longrightarrow>
   map fst df = map fst fileRows \<and>
   map (\<lambda>(d, r). Inr (Discharge r)) df = map (\<lambda>(d, r). to_float (Discharge r)) fileRows"
proof (induction fileRows arbitrary: df rule: read_csv.induct)
  case 1
  then show ?case by simp
next
  case (2 d r rest)
  then show ?case
    by (auto split: sum.splits)
qed

lemma ReadData_Inr:
  assumes "ReadData fileRows = Inr (df, mv)"
  obtains df0 where "read_csv fileRows = Inr df0" "df = remove_negative df0"
    "mv = missing_values df"
  using assms by (auto simp: ReadData_def Let_def split: sum.splits)

lemma index_remove_negative: "map fst (remove_negative df) = map fst df"
  by (induction df) (auto simp: remove_negative_def)

lemma length_remove_negative: "length (remove_negative df) = length df"
  by (simp add: remove_negative_def)

lemma read_csv_length: "read_csv fileRows = Inr df \<Longrightarrow> length df = length fileRows"
  using read_csv_rows [of fileRows df] by (metis length_map)

lemma read_csv_nth:
  "read_csv fileRows = Inr df \<Longrightarrow> i < length fileRows \<Longrightarrow>
   to_float (Discharge (snd (fileRows ! i))) = Inr (Discharge (snd (df ! i)))"
proof (induction fileRows arbitrary: df i rule: read_csv.induct)
  case 1
  then show ?case by simp
next
  case (2 d r rest)
  then show ?case
    by (cases i) (auto split: sum.splits)
qed

lemma remove_negative_nth:
  "i < length df \<Longrightarrow>
   Discharge (snd (remove_negative df ! i)) = gross_error_check (Discharge (snd (df ! i)))"
  by (simp add: remove_negative_def split: prod.splits)

lemma read_csv_missing:
  "read_csv fileRows = Inr df \<Longrightarrow>
   missing_values (remove_negative df)
     = length (filter (\<lambda>(d, r). is_marker (Discharge r)) fileRows)
     + length (filter (\<lambda>(d, r). is_negative (Discharge r)) fileRows)"
proof (induction fileRows arbitrary: df rule: read_csv.induct)
  case 1
  then show ?case by (simp add: missing_values_def remove_negative_def isna_sum_def)
next
  case (2 d r rest)
  from "2.prems" obtain v df' where v: "to_float (Discharge r) = Inr v"
    and df': "read_csv rest = Inr df'"
    and df: "df = (d, \<lparr>agency_cd = agency_cd r, site_no = site_no r,
                         Discharge = v, Quality = Quality r\<rparr>) # df'"
    by (auto split: sum.splits)
  have IH: "missing_values (remove_negative df')
     = length (filter (\<lambda>(d, r). is_marker (Discharge r)) rest)
     + length (filter (\<lambda>(d, r). is_negative (Discharge r)) rest)"
    using "2.IH" v df' by simp
  have step: "missing_values (remove_negative df)
     = (if gross_error_check v = None then 1 else 0) + missing_values (remove_negative df')"
    by (simp add: df missing_values_def remove_negative_def isna_sum_def)
  show ?case
    using v IH unfolding step
    by (cases "Discharge r") (auto simp: gross_error_check_def split: if_splits)
qed

text \<open>
  Claim C4. When the record reader returns, the table has the dates of the file, row by
  row: no row is dropped. Every row whose discharge field is a negative number has the
  missing marker as discharge (and so neither the number nor zero), and the count
  returned is the number of fields that were missing markers plus the number of negative
  fields: each replacement adds one. A file whose only row has the discharge -5, on any
  date, is read as one row with a missing discharge and a count of 1.
\<close>

theorem ReadData_negative_missing:
  assumes "ReadData fileRows = Inr (df, mv)"
  shows "map fst df = map fst fileRows \<and> length df = length fileRows
     \<and> (\<forall>i < length fileRows. is_negative (Discharge (snd (fileRows ! i)))
            \<longrightarrow> Discharge (snd (df ! i)) = None)
     \<and> mv = length (filter (\<lambda>(d, r). is_marker (Discharge r)) fileRows)
          + length (filter (\<lambda>(d, r). is_negative (Discharge r)) fileRows)
     \<and> ReadData [(dt, \<lparr>agency_cd = a, site_no = n, Discharge = Num (- 5), Quality = q\<rparr>)]
          = Inr ([(dt, \<lparr>agency_cd = a, site_no = n, Discharge = None, Quality = q\<rparr>)], 1)"
proof -
  from assms obtain df0 where df0: "read_csv fileRows = Inr df0"
    and df: "df = remove_negative df0" and mv: "mv = missing_values df"
    by (rule ReadData_Inr)
  have len0: "length df0 = length fileRows"
    using df0 by (rule read_csv_length)
  have idx: "map fst df = map fst fileRows"
    using read_csv_rows [OF df0] by (simp add: df index_remove_negative)
  have neg: "Discharge (snd (df ! i)) = None"
    if "i < length fileRows" "is_negative (Discharge (snd (fileRows ! i)))" for i
  proof -
    from that(2) obtain x where x: "Discharge (snd (fileRows ! i)) = Num x" "x < 0"
      by (cases "Discharge (snd (fileRows ! i))") auto
    with read_csv_nth [OF df0 that(1)] have "Discharge (snd (df0 ! i)) = Some x"
      by simp
    with x(2) that(1) len0 show ?thesis
      by (simp add: df remove_negative_nth gross_error_check_def)
  qed
  have cnt: "mv = length (filter (\<lambda>(d, r). is_marker (Discharge r)) fileRows)
          + length (filter (\<lambda>(d, r). is_negative (Discharge r)) fileRows)"
    unfolding mv df using df0 by (rule read_csv_missing)
  have scenario:
    "ReadData [(dt, \<lparr>agency_cd = a, site_no = n, Discharge = Num (- 5), Quality = q\<rparr>)]
          = Inr ([(dt, \<lparr>agency_cd = a, site_no = n, Discharge = None, Quality = q\<rparr>)], 1)"
    by (simp add: ReadData_def remove_negative_def gross_error_check_def missing_values_def
        isna_sum_def)
  from idx len0 neg cnt scenario show ?thesis
    by (simp add: df length_remove_negative)
qed

theorem ReadData_negative_missing_witness:
  "ReadData [((2020, 3, 13), wildcat_row (Num (- 5))), ((2020, 3, 14), wildcat_row Eqp),
             ((2020, 3, 15), wildcat_row (Num 12))]
   = Inr ([((2020, 3, 13), wildcat_row None), ((2020, 3, 14), wildcat_row None),
           ((2020, 3, 15), wildcat_row (Some 12))], 2)
   \<and> map fst [((2020, 3, 13) :: date, wildcat_row (None :: real option)),
               ((2020, 3, 14), wildcat_row None), ((2020, 3, 15), wildcat_row (Some 12))]
     = [(2020, 3, 13), (2020, 3, 14), (2020, 3, 15)]"
proof -
  have h: "ReadData [((2020, 3, 13), wildcat_row (Num (- 5))), ((2020, 3, 14), wildcat_row Eqp),
             ((2020, 3, 15), wildcat_row (Num 12))]
   = Inr ([((2020, 3, 13), wildcat_row None), ((2020, 3, 14), wildcat_row None),
           ((2020, 3, 15), wildcat_row (Some 12))], 2)"
    by (simp add: ReadData_def remove_negative_def gross_error_check_def missing_values_def
        isna_sum_def wildcat_row_def)
  from ReadData_negative_missing [OF h] h show ?thesis by simp
qed

section \<open>Properties of the range clipper\<close>

lemma filter_none_after:
  "\<forall>x \<in> set xs. \<not> P x \<Longrightarrow> filter P xs = []"
  by (induction xs) auto

lemma takeWhile_le_filter:
  fixes k :: "'r \<Rightarrow> 'k::linorder"
  assumes "sorted (map k rs)" "\<forall>p \<in> set rs. lo \<le> k p"
  shows "takeWhile (\<lambda>p. k p \<le> hi) rs = filter (\<lambda>p. lo \<le> k p \<and> k p \<le> hi) rs"
  using assms
proof (induction rs)
  case Nil
  then show ?case by simp
next
  case (Cons p rs)
  show ?case
  proof (cases "k p \<le> hi")
    case True
    with Cons show ?thesis by auto
  next
    case False
    with Cons.prems have "\<forall>q \<in> set (p # rs). \<not> k q \<le> hi"
      by (auto dest: order_trans)
    then have "filter (\<lambda>p. lo \<le> k p \<and> k p \<le> hi) (p # rs) = []"
      by (intro filter_none_after) auto
    with False show ?thesis by simp
  qed
qed

lemma positions_window:
  fixes k :: "'r \<Rightarrow> 'k::linorder"
  assumes "sorted (map k rs)"
  shows "(if length (takeWhile (\<lambda>t. t \<le> hi) (map k rs)) \<le> length (takeWhile (\<lambda>t. t < lo) (map k rs))
          then []
          else take (length (takeWhile (\<lambda>t. t \<le> hi) (map k rs))
                     - length (takeWhile (\<lambda>t. t < lo) (map k rs)))
                 (drop (length (takeWhile (\<lambda>t. t < lo) (map k rs))) rs))
       = filter (\<lambda>p. lo \<le> k p \<and> k p \<le> hi) rs"
  using assms
proof (induction rs)
  case Nil
  then show ?case by simp
next
  case (Cons p rs)
  from Cons.prems have srt: "sorted (map k rs)" and ge: "\<forall>q \<in> set rs. k p \<le> k q"
    by auto
  note IH = Cons.IH [OF srt]
  show ?case
  proof (cases "k p < lo")
    case before: True
    show ?thesis
    proof (cases "k p \<le> hi")
      case True
      from before have "\<not> lo \<le> k p" by simp
      with True before IH show ?thesis by (auto split: if_splits)
    next
      case False
      with ge have "\<forall>q \<in> set (p # rs). \<not> k q \<le> hi"
        by (auto dest: order_trans)
      then have "filter (\<lambda>p. lo \<le> k p \<and> k p \<le> hi) (p # rs) = []"
        by (intro filter_none_after) auto
      with False show ?thesis by simp
    qed
  next
    case False
    then have sp: "lo \<le> k p" by simp
    with ge have all: "\<forall>q \<in> set (p # rs). lo \<le> k q"
      by (auto dest: order_trans)
    have tw: "take (length (takeWhile (\<lambda>q. k q \<le> hi) (p # rs))) (p # rs)
        = takeWhile (\<lambda>q. k q \<le> hi) (p # rs)"
      by (rule takeWhile_eq_take [symmetric])
    have "takeWhile (\<lambda>q. k q \<le> hi) (p # rs) = filter (\<lambda>p. lo \<le> k p \<and> k p \<le> hi) (p # rs)"
      using Cons.prems all by (rule takeWhile_le_filter)
    with tw have flt: "take (length (takeWhile (\<lambda>q. k q \<le> hi) (p # rs))) (p # rs)
        = filter (\<lambda>p. lo \<le> k p \<and> k p \<le> hi) (p # rs)"
      by simp
    show ?thesis
    proof (cases "k p \<le> hi")
      case True
      with False flt show ?thesis by (simp add: takeWhile_map o_def)
    next
      case False
      with ge have "\<forall>q \<in> set (p # rs). \<not> k q \<le> hi"
        by (auto dest: order_trans)
      then have "filter (\<lambda>p. lo \<le> k p \<and> k p \<le> hi) (p # rs) = []"
        by (intro filter_none_after) auto
      with False show ?thesis by simp
    qed
  qed
qed

lemma sorted_neq_less:
  fixes xs :: "'a::linorder list"
  assumes "sorted xs" "x \<in> set xs"
  shows "takeWhile (\<lambda>t. t \<noteq> x) xs = takeWhile (\<lambda>t. t < x) xs
     \<and> dropWhile (\<lambda>t. t \<noteq> x) xs = dropWhile (\<lambda>t. t < x) xs"
  using assms
proof (induction xs)
  case Nil
  then show ?case by simp
next
  case (Cons a xs)
  show ?case
  proof (cases "a = x")
    case True
    then show ?thesis by simp
  next
    case False
    with Cons.prems have "x \<in> set xs" "a \<le> x" by auto
    with False Cons show ?thesis by auto
  qed
qed

lemma sorted_eq_le:
  fixes xs :: "'a::linorder list"
  assumes "sorted xs" "\<forall>t \<in> set xs. x \<le> t"
  shows "takeWhile (\<lambda>t. t = x) xs = takeWhile (\<lambda>t. t \<le> x) xs
     \<and> dropWhile (\<lambda>t. t = x) xs = dropWhile (\<lambda>t. t \<le> x) xs"
  using assms by (induction xs) auto

lemma sorted_dropWhile_le:
  fixes xs :: "'a::linorder list"
  assumes "sorted xs"
  shows "x \<notin> set (dropWhile (\<lambda>t. t \<le> x) xs)"
  using assms
proof (induction xs)
  case Nil
  then show ?case by simp
next
  case (Cons a xs)
  then show ?case by (cases "a \<le> x") auto
qed

lemma sorted_dropWhile_less:
  fixes xs :: "'a::linorder list"
  assumes "sorted xs"
  shows "sorted (dropWhile (\<lambda>t. t < x) xs) \<and> (\<forall>t \<in> set (dropWhile (\<lambda>t. t < x) xs). x \<le> t)"
  using assms
proof (induction xs)
  case Nil
  then show ?case by simp
next
  case (Cons a xs)
  then show ?case by (cases "a < x") (auto dest: order_trans)
qed

lemma takeWhile_less_le:
  fixes xs :: "'a::linorder list"
  shows "length (takeWhile (\<lambda>t. t < x) xs)
       + length (takeWhile (\<lambda>t. t \<le> x) (dropWhile (\<lambda>t. t < x) xs))
     = length (takeWhile (\<lambda>t. t \<le> x) xs)"
  by (induction xs) auto

lemma get_slice_bound_sorted:
  assumes "sorted idx"
  shows "get_slice_bound idx x Left = Inr (length (takeWhile (\<lambda>t. t < x) idx))"
    and "get_slice_bound idx x Right = Inr (length (takeWhile (\<lambda>t. t \<le> x) idx))"
proof -
  have absent: "searchsorted_monotonic idx x sd
      = Inr (case sd of Left \<Rightarrow> length (takeWhile (\<lambda>t. t < x) idx)
                      | Right \<Rightarrow> length (takeWhile (\<lambda>t. t \<le> x) idx))" for sd
    using assms by (simp add: searchsorted_monotonic_def)
  have present: "get_loc_bound idx x sd
      = Inr (case sd of Left \<Rightarrow> length (takeWhile (\<lambda>t. t < x) idx)
                      | Right \<Rightarrow> length (takeWhile (\<lambda>t. t \<le> x) idx))"
    if "x \<in> set idx" for sd
  proof -
    note a = sorted_neq_less [OF assms that]
    note b = sorted_dropWhile_less [OF assms, of x]
    from b have c: "takeWhile (\<lambda>t. t = x) (dropWhile (\<lambda>t. t < x) idx)
          = takeWhile (\<lambda>t. t \<le> x) (dropWhile (\<lambda>t. t < x) idx)"
      and d: "dropWhile (\<lambda>t. t = x) (dropWhile (\<lambda>t. t < x) idx)
          = dropWhile (\<lambda>t. t \<le> x) (dropWhile (\<lambda>t. t < x) idx)"
      using sorted_eq_le [of "dropWhile (\<lambda>t. t < x) idx" x] by simp_all
    from b have e: "x \<notin> set (dropWhile (\<lambda>t. t \<le> x) (dropWhile (\<lambda>t. t < x) idx))"
      using sorted_dropWhile_le by blast
    show ?thesis
      unfolding get_loc_bound_def Let_def
      using a c d e takeWhile_less_le [of x idx]
      by (cases sd) simp_all
  qed
  show "get_slice_bound idx x Left = Inr (length (takeWhile (\<lambda>t. t < x) idx))"
    using absent [of Left] present [of Left] by (simp add: get_slice_bound_def)
  show "get_slice_bound idx x Right = Inr (length (takeWhile (\<lambda>t. t \<le> x) idx))"
    using absent [of Right] present [of Right] by (simp add: get_slice_bound_def)
qed

lemma cast_left_le: "cast_slice_bound s Left \<le> (d, False) \<longleftrightarrow> bound_date s \<le> d"
  by (cases s) auto

lemma cast_right_le: "(d, False) \<le> cast_slice_bound e Right \<longleftrightarrow> d \<le> bound_date e"
  by (cases e) auto

lemma sorted_flagged:
  fixes ds :: "'a::linorder list"
  shows "sorted (map (\<lambda>d. (d, False)) ds) \<longleftrightarrow> sorted ds"
  by (induction ds) auto

lemma sorted_midnight:
  "sorted (map (\<lambda>(d, r). (d, False)) (df :: DataDF)) \<longleftrightarrow> sorted (map fst df)"
proof -
  have "map (\<lambda>(d, r). (d, False)) df = map (\<lambda>d. (d, False)) (map fst df)"
    by (simp add: case_prod_unfold)
  then show ?thesis by (simp only: sorted_flagged)
qed

lemma window_filter:
  "filter (\<lambda>(d, r). cast_slice_bound s Left \<le> (d, False) \<and> (d, False) \<le> cast_slice_bound e Right) df
     = rows_in_window df (bound_date s) (bound_date e)"
  by (simp add: rows_in_window_def in_window_def cast_left_le cast_right_le)

lemma slice_rows_window:
  assumes "sorted (map fst df) \<or> (is_str s \<and> is_str e)"
  shows "slice_rows df s e = Inr (rows_in_window df (bound_date s) (bound_date e))"
proof (cases "sorted (map fst df)")
  case True
  let ?k = "\<lambda>(d, r). (d, False)" and ?idx = "map (\<lambda>(d, r). (d, False)) df"
  from True have srt: "sorted ?idx" by (simp add: sorted_midnight)
  have locs: "slice_locs ?idx s e
      = Inr (length (takeWhile (\<lambda>t. t < cast_slice_bound s Left) ?idx),
             length (takeWhile (\<lambda>t. t \<le> cast_slice_bound e Right) ?idx))"
    by (simp add: slice_locs_def get_slice_bound_sorted [OF srt])
  have "filter (\<lambda>p. cast_slice_bound s Left \<le> ?k p \<and> ?k p \<le> cast_slice_bound e Right) df
      = rows_in_window df (bound_date s) (bound_date e)"
    by (simp add: rows_in_window_def in_window_def cast_left_le cast_right_le case_prod_unfold)
  with positions_window [OF srt, of "cast_slice_bound e Right" "cast_slice_bound s Left"]
  show ?thesis
    using srt locs by (simp add: slice_rows_def)
next
  case False
  with assms have "is_str s" "is_str e" by simp_all
  with False show ?thesis
    by (simp add: slice_rows_def sorted_midnight window_filter)
qed

lemma set_slice_rows:
  assumes "slice_rows df s e = Inr df'"
  shows "set df' \<subseteq> set df"
proof -
  let ?idx = "map (\<lambda>(d, r). (d, False)) df"
  have sub: "set (take n (drop k df)) \<subseteq> set df" for n k
    using set_take_subset [of n "drop k df"] set_drop_subset [of k df] by blast
  show ?thesis
  proof (cases "\<not> is_str s \<or> \<not> is_str e \<or> sorted ?idx")
    case True
    with assms have *: "(case slice_locs ?idx s e of
           Inl e \<Rightarrow> Inl e
         | Inr (lo, hi) \<Rightarrow> Inr (if hi \<le> lo then [] else take (hi - lo) (drop lo df)))
        = Inr df'"
      unfolding slice_rows_def Let_def by (simp only: if_True)
    then obtain lo hi where "df' = (if hi \<le> lo then [] else take (hi - lo) (drop lo df))"
      by (cases "slice_locs ?idx s e") (auto split: prod.splits)
    with sub [of "hi - lo" lo] show ?thesis by (simp split: if_splits)
  next
    case False
    with assms have "df' = filter (\<lambda>(d, r). cast_slice_bound s Left \<le> (d, False)
                             \<and> (d, False) \<le> cast_slice_bound e Right) df"
      unfolding slice_rows_def Let_def by (simp only: if_False sum.inject)
    then show ?thesis by simp
  qed
qed

lemma valid_remove_negative:
  "p \<in> set (remove_negative df) \<Longrightarrow> valid_discharge (Discharge (snd p))"
  by (auto simp: remove_negative_def valid_discharge_def gross_error_check_def
      split: option.splits if_splits)



lemma sorted_hd_last:
  assumes "sorted (map fst (df :: DataDF))" "p \<in> set df"
  shows "fst (hd df) \<le> fst p \<and> fst p \<le> fst (last df)"
proof -
  from assms(2) obtain i where i: "i < length df" "df ! i = p"
    by (auto simp: in_set_conv_nth)
  then have ne: "df \<noteq> []" by auto
  have "map fst df ! 0 \<le> map fst df ! i"
    using assms(1) i(1) by (intro sorted_nth_mono) auto
  moreover have "map fst df ! i \<le> map fst df ! (length df - 1)"
    using assms(1) i(1) by (intro sorted_nth_mono) auto
  ultimately show ?thesis
    using i ne by (simp add: hd_conv_nth last_conv_nth)
qed

lemma get_loc_bound_hd:
  assumes "distinct idx" "idx \<noteq> []"
  shows "get_loc_bound idx (hd idx) Left = Inr 0"
proof -
  from assms obtain x xs where idx: "idx = x # xs" and x: "x \<notin> set xs"
    by (cases idx) auto
  have "set (dropWhile (\<lambda>t. t = x) xs) \<subseteq> set xs"
    by (rule set_dropWhileD [THEN subsetI])
  with x show ?thesis
    by (auto simp: idx get_loc_bound_def)
qed

lemma get_loc_bound_last:
  assumes "distinct idx" "idx \<noteq> []"
  shows "get_loc_bound idx (last idx) Right = Inr (length idx)"
proof -
  from assms obtain ys z where idx: "idx = ys @ [z]" and z: "z \<notin> set ys"
    by (cases idx rule: rev_cases) auto
  from z have tw: "takeWhile (\<lambda>t. t \<noteq> z) (ys @ [z]) = ys"
    by (induction ys) auto
  from z have dw: "dropWhile (\<lambda>t. t \<noteq> z) (ys @ [z]) = [z]"
    by (induction ys) auto
  show ?thesis
    by (simp add: idx get_loc_bound_def tw dw)
qed

lemma midnight_index:
  "map (\<lambda>(d, r). (d, False)) (df :: DataDF) = map (\<lambda>d. (d, False)) (map fst df)"
  by (simp add: case_prod_unfold)

lemma distinct_flagged: "distinct (map (\<lambda>d. (d, False)) ds) \<longleftrightarrow> distinct ds"
  by (induction ds) auto

lemma slice_rows_own_dates:
  assumes "distinct (map fst df)" "df \<noteq> []"
  shows "slice_rows df (Timestamp (fst (hd df))) (Timestamp (fst (last df))) = Inr df"
proof -
  let ?idx = "map (\<lambda>(d, r). (d, False)) df"
  from assms(1) have dist: "distinct ?idx"
    unfolding midnight_index by (simp only: distinct_flagged)
  from assms(2) have ne: "?idx \<noteq> []" by simp
  from assms(2) have h: "hd ?idx = (fst (hd df), False)"
    by (simp add: hd_map case_prod_unfold)
  from assms(2) have l: "last ?idx = (fst (last df), False)"
    by (simp add: last_map case_prod_unfold)
  have "get_slice_bound ?idx (hd ?idx) Left = Inr 0"
    using get_loc_bound_hd [OF dist ne] hd_in_set [OF ne]
    by (simp only: get_slice_bound_def if_True)
  then have lo: "get_slice_bound ?idx (fst (hd df), False) Left = Inr 0"
    by (simp only: h)
  have "get_slice_bound ?idx (last ?idx) Right = Inr (length ?idx)"
    using get_loc_bound_last [OF dist ne] last_in_set [OF ne]
    by (simp only: get_slice_bound_def if_True)
  then have hi: "get_slice_bound ?idx (fst (last df), False) Right = Inr (length df)"
    by (simp only: l length_map)
  have "slice_locs ?idx (Timestamp (fst (hd df))) (Timestamp (fst (last df)))
      = Inr (0, length df)"
    by (simp add: slice_locs_def lo hi)
  with assms(2) show ?thesis
    by (simp add: slice_rows_def)
qed




text \<open>
  Claim C6, as amended. For a file with at least one row that the record reader can
  read, and whose dates are in increasing order or are all different, clipping the table
  read to its own first and last date, taken from the index as timestamps, gives the
  same table back, with as many rows as the file, and the same count of missing values.
  For a file in increasing order the two dates written as date strings do the same.
\<close>

theorem ReadData_ClipData_roundtrip:
  assumes "ReadData fileRows = Inr (df, mv)" and "fileRows \<noteq> []"
    and "sorted (map fst fileRows) \<or> distinct (map fst fileRows)"
  shows "ClipData df (Timestamp (fst (hd df))) (Timestamp (fst (last df))) = Inr (df, mv)
     \<and> length df = length fileRows
     \<and> (sorted (map fst fileRows) \<longrightarrow>
          ClipData df (DateString (fst (hd df))) (DateString (fst (last df))) = Inr (df, mv))"
proof -
  from assms(1) obtain df0 where df0: "read_csv fileRows = Inr df0"
    and df: "df = remove_negative df0" and mv: "mv = missing_values df"
    by (rule ReadData_Inr)
  have idx: "map fst df = map fst fileRows"
    using read_csv_rows [OF df0] by (simp add: df index_remove_negative)
  then have len: "length df = length fileRows"
    by (metis length_map)
  with assms(2) have ne: "df \<noteq> []" by auto
  have win: "rows_in_window df (fst (hd df)) (fst (last df)) = df" if "sorted (map fst df)"
    unfolding rows_in_window_def
    using sorted_hd_last [OF that] by (intro filter_True) (auto simp: in_window_def)
  have "slice_rows df (Timestamp (fst (hd df))) (Timestamp (fst (last df))) = Inr df"
  proof (cases "sorted (map fst df)")
    case True
    with win show ?thesis
      by (simp add: slice_rows_window)
  next
    case False
    with assms(3) idx have "distinct (map fst df)" by simp
    then show ?thesis using ne by (rule slice_rows_own_dates)
  qed
  then have stamps: "ClipData df (Timestamp (fst (hd df))) (Timestamp (fst (last df)))
      = Inr (df, mv)"
    by (simp add: ClipData_def mv)
  have strings: "ClipData df (DateString (fst (hd df))) (DateString (fst (last df)))
      = Inr (df, mv)" if "sorted (map fst fileRows)"
  proof -
    from that idx have srt: "sorted (map fst df)" by simp
    then have "slice_rows df (DateString (fst (hd df))) (DateString (fst (last df))) = Inr df"
      using win by (simp add: slice_rows_window)
    then show ?thesis by (simp add: ClipData_def mv)
  qed
  from stamps len strings show ?thesis by blast
qed

theorem ReadData_ClipData_roundtrip_witness:
  "ReadData [((2020, 3, 15), wildcat_row (Num (- 5))), ((2020, 3, 13), wildcat_row Eqp),
             ((2020, 3, 14), wildcat_row (Num 12))]
   = Inr ([((2020, 3, 15), wildcat_row None), ((2020, 3, 13), wildcat_row None),
           ((2020, 3, 14), wildcat_row (Some 12))], 2)
   \<and> ClipData [((2020, 3, 15), wildcat_row None), ((2020, 3, 13), wildcat_row None),
           ((2020, 3, 14), wildcat_row (Some 12))]
        (Timestamp (2020, 3, 15)) (Timestamp (2020, 3, 14))
     = Inr ([((2020, 3, 15), wildcat_row None), ((2020, 3, 13), wildcat_row None),
           ((2020, 3, 14), wildcat_row (Some 12))], 2)"
proof -
  let ?F = "[((2020, 3, 15), wildcat_row (Num (- 5))), ((2020, 3, 13), wildcat_row Eqp),
             ((2020, 3, 14), wildcat_row (Num 12))] :: file_rows"
  have h: "ReadData ?F
   = Inr ([((2020, 3, 15), wildcat_row None), ((2020, 3, 13), wildcat_row None),
           ((2020, 3, 14), wildcat_row (Some 12))], 2)"
    by (simp add: ReadData_def remove_negative_def gross_error_check_def missing_values_def
        isna_sum_def wildcat_row_def)
  have n: "?F \<noteq> []" by simp
  have s: "sorted (map fst ?F) \<or> distinct (map fst ?F)" by simp
  from ReadData_ClipData_roundtrip [OF h n s] h show ?thesis by simp
qed

text \<open>
  The claim as it was stated, for every readable file, fails: in this file the first
  date is also the last and another date lies between its two occurrences. With the two
  timestamps the slice has no position for the bound and raises; with the two date
  strings the mask leaves the row in between out.
\<close>

theorem ReadData_ClipData_roundtrip_counterexample:
  "ReadData [((2020, 3, 14), wildcat_row (Num 2)), ((2020, 3, 13), wildcat_row (Num 1)),
             ((2020, 3, 14), wildcat_row (Num 3))]
   = Inr ([((2020, 3, 14), wildcat_row (Some 2)), ((2020, 3, 13), wildcat_row (Some 1)),
           ((2020, 3, 14), wildcat_row (Some 3))], 0)
   \<and> ClipData [((2020, 3, 14), wildcat_row (Some 2)), ((2020, 3, 13), wildcat_row (Some 1)),
           ((2020, 3, 14), wildcat_row (Some 3))]
        (Timestamp (2020, 3, 14)) (Timestamp (2020, 3, 14)) = Inl KeyError
   \<and> ClipData [((2020, 3, 14), wildcat_row (Some 2)), ((2020, 3, 13), wildcat_row (Some 1)),
           ((2020, 3, 14), wildcat_row (Some 3))]
        (DateString (2020, 3, 14)) (DateString (2020, 3, 14))
     = Inr ([((2020, 3, 14), wildcat_row (Some 2)), ((2020, 3, 14), wildcat_row (Some 3))], 0)"
  by (simp add: ReadData_def remove_negative_def gross_error_check_def
      ClipData_def slice_rows_def slice_locs_def get_slice_bound_def get_loc_bound_def
      missing_values_def isna_sum_def wildcat_row_def)

text \<open>
  Claim C7. When the record reader returns, every discharge of the table is missing or
  a number that is not negative. Clipping keeps this: when the clipper returns, its rows
  are rows of the table clipped, so no negative discharge appears, for the table read and
  for any table with the property, ordered or not, and for bounds of either form.
\<close>

theorem discharge_invariant:
  assumes "ReadData fileRows = Inr (df, mv)"
  shows "(\<forall>p \<in> set df. valid_discharge (Discharge (snd p)))
     \<and> (\<forall>s e df' n. ClipData df s e = Inr (df', n)
           \<longrightarrow> (\<forall>p \<in> set df'. valid_discharge (Discharge (snd p))))
     \<and> (\<forall>t s e t' n. (\<forall>p \<in> set t. valid_discharge (Discharge (snd p)))
             \<and> ClipData t s e = Inr (t', n)
           \<longrightarrow> (\<forall>p \<in> set t'. valid_discharge (Discharge (snd p))))"
proof -
  from assms obtain df0 where df: "df = remove_negative df0"
    by (rule ReadData_Inr)
  have inv: "\<forall>p \<in> set df. valid_discharge (Discharge (snd p))"
    unfolding df by (blast intro: valid_remove_negative)
  have clip: "\<forall>p \<in> set t'. valid_discharge (Discharge (snd p))"
    if "\<forall>p \<in> set t. valid_discharge (Discharge (snd p))" "ClipData t s e = Inr (t', n)"
    for t s e t' n
  proof -
    from that(2) have "slice_rows t s e = Inr t'"
      by (auto simp: ClipData_def Let_def split: sum.splits)
    then have "set t' \<subseteq> set t" by (rule set_slice_rows)
    with that(1) show ?thesis by blast
  qed
  from inv clip show ?thesis by blast
qed

theorem discharge_invariant_witness:
  "ReadData [((2020, 3, 13), wildcat_row (Num (- 5))), ((2020, 3, 15), wildcat_row (Num 12))]
   = Inr ([((2020, 3, 13), wildcat_row None), ((2020, 3, 15), wildcat_row (Some 12))], 1)
   \<and> valid_discharge (Discharge (wildcat_row (None :: real option)))
   \<and> valid_discharge (Discharge (wildcat_row (Some 12)))
   \<and> ClipData [((2020, 3, 13), wildcat_row None), ((2020, 3, 15), wildcat_row (Some 12))]
        (DateString (2020, 3, 14)) (Timestamp (2020, 3, 15))
     = Inr ([((2020, 3, 15), wildcat_row (Some 12))], 0)"
proof -
  have h: "ReadData [((2020, 3, 13), wildcat_row (Num (- 5))), ((2020, 3, 15), wildcat_row (Num 12))]
   = Inr ([((2020, 3, 13), wildcat_row None), ((2020, 3, 15), wildcat_row (Some 12))], 1)"
    by (simp add: ReadData_def remove_negative_def gross_error_check_def missing_values_def
        isna_sum_def wildcat_row_def)
  have c: "ClipData [((2020, 3, 13), wildcat_row None), ((2020, 3, 15), wildcat_row (Some 12))]
        (DateString (2020, 3, 14)) (Timestamp (2020, 3, 15))
     = Inr ([((2020, 3, 15), wildcat_row (Some 12))], 0)"
    by (simp add: ClipData_def slice_rows_def slice_locs_def get_slice_bound_def
        get_loc_bound_def searchsorted_monotonic_def missing_values_def isna_sum_def
        wildcat_row_def)
  from discharge_invariant [OF h] h c show ?thesis by simp
qed




section \<open>Properties of the monthly averager\<close>

lemma month_loop_eq:
  "month_loop df is acc
     = acc @ map (\<lambda>i. mean_df (loc_mask df (month_mask (map fst (rows df)) (i + 1)))) is"
  by (induction "is" arbitrary: acc) auto

lemma GetMonthlyAverages_eq:
  "GetMonthlyAverages df
     = DataFrame (map (\<lambda>m. (m, mean_df (loc_mask df (month_mask (map fst (rows df)) m))))
         [1..<13])"
proof -
  let ?M = "month_loop df [0..<12] []"
  have "[(1, ?M ! 0), (2, ?M ! 1), (3, ?M ! 2), (4, ?M ! 3), (5, ?M ! 4), (6, ?M ! 5),
         (7, ?M ! 6), (8, ?M ! 7), (9, ?M ! 8), (10, ?M ! 9), (11, ?M ! 10), (12, ?M ! 11)]
      = map (\<lambda>m. (m, mean_df (loc_mask df (month_mask (map fst (rows df)) m)))) [1..<13]"
    by (simp add: month_loop_eq upt_rec)
  then show ?thesis
    by (simp only: GetMonthlyAverages_def Let_def)
qed

lemma select_mask:
  "map fst (filter snd (zip xs (map P xs))) = filter P xs"
  by (induction xs) auto

lemma rows_loc_mask:
  "rows (loc_mask df (month_mask (map fst (rows df)) m))
     = filter (\<lambda>(d, r). month d = m) (rows df)"
proof -
  have "month_mask (map fst (rows df)) m = map (\<lambda>p. month (fst p) = m) (rows df)"
    by (simp add: month_mask_def)
  then have "rows (loc_mask df (month_mask (map fst (rows df)) m))
      = filter (\<lambda>p. month (fst p) = m) (rows df)"
    by (simp add: loc_mask_def select_mask)
  also have "\<dots> = filter (\<lambda>(d, r). month d = m) (rows df)"
    by (rule filter_cong) auto
  finally show ?thesis .
qed

lemma columns_loc_mask:
  "columns (loc_mask df msk) = columns df" "stat_columns (loc_mask df msk) = stat_columns df"
  by (simp_all add: loc_mask_def stat_columns_def)

lemma map_of_tabulate:
  "map_of (map (\<lambda>k. (k, f k)) ks) k = (if k \<in> set ks then Some (f k) else None)"
  by (induction ks) auto

lemma labels_mean_df:
  "map fst (mean_df df) = (if rows df = [] then columns df else stat_columns df)"
  by (simp add: mean_df_def o_def)

lemma stat_in_mean_df:
  assumes "c \<in> set (stat_columns df)"
  shows "map_of (mean_df df) c = Some (nanmean (map (\<lambda>(d, r). stat r c) (rows df)))"
proof (cases "rows df = []")
  case True
  from assms have "c \<in> set (columns df)" by (simp add: stat_columns_def)
  with True show ?thesis
    by (simp add: mean_df_def map_of_tabulate nanmean_def)
next
  case False
  with assms show ?thesis
    by (simp add: mean_df_def map_of_tabulate)
qed

lemma union_indexes_member:
  assumes "idxs \<noteq> []" "\<forall>i \<in> set idxs. c \<in> set i"
  shows "c \<in> set (union_indexes idxs)"
proof -
  from assms obtain i others where idxs: "idxs = i # others"
    by (cases idxs) auto
  with assms(2) have "c \<in> set i" by simp
  then show ?thesis
    by (auto simp: union_indexes_def idxs)
qed

lemma DataFrame_tabulate:
  "DataFrame (map (\<lambda>k. (k, f k)) ks)
     = map (\<lambda>k. (k, reindex (f k) (union_indexes (map (\<lambda>k. map fst (f k)) ks)))) ks"
  by (simp add: DataFrame_def o_def)

lemma map_of_DataFrame:
  "map_of (DataFrame (map (\<lambda>k. (k, f k)) ks)) k
     = (if k \<in> set ks
        then Some (reindex (f k) (union_indexes (map (\<lambda>k. map fst (f k)) ks)))
        else None)"
  by (simp only: DataFrame_tabulate map_of_tabulate)

lemma map_of_reindex:
  "map_of (reindex s idx) c
     = (if c \<in> set idx then Some (case map_of s c of None \<Rightarrow> None | Some v \<Rightarrow> v) else None)"
  by (simp add: reindex_def map_of_tabulate)

lemma cell_GetMonthlyAverages:
  assumes "m \<in> {1..12}" "c \<in> set (stat_columns df)"
  shows "cell (GetMonthlyAverages df) c m
     = Some (nanmean (map (\<lambda>(d, r). stat r c) (filter (\<lambda>(d, r). month d = m) (rows df))))"
proof -
  let ?S = "\<lambda>m. mean_df (loc_mask df (month_mask (map fst (rows df)) m))"
  let ?idx = "union_indexes (map (\<lambda>k. map fst (?S k)) [1..<13])"
  from assms(1) have m: "m \<in> set [1..<13]" by auto
  have col: "map_of (GetMonthlyAverages df) m = Some (reindex (?S m) ?idx)"
    unfolding GetMonthlyAverages_eq map_of_DataFrame using m by simp
  have each: "map_of (?S k) c
      = Some (nanmean (map (\<lambda>(d, r). stat r c) (filter (\<lambda>(d, r). month d = k) (rows df))))"
    for k
    using stat_in_mean_df [of c "loc_mask df (month_mask (map fst (rows df)) k)"] assms(2)
    by (simp add: columns_loc_mask rows_loc_mask)
  have "\<forall>i \<in> set (map (\<lambda>k. map fst (?S k)) [1..<13]). c \<in> set i"
  proof
    fix i assume "i \<in> set (map (\<lambda>k. map fst (?S k)) [1..<13])"
    then obtain k where i: "i = map fst (?S k)" by auto
    from each [of k] have "c \<in> fst ` set (?S k)"
      by (metis map_of_eq_None_iff option.distinct(1))
    with i show "c \<in> set i" by simp
  qed
  moreover have "map (\<lambda>k. map fst (?S k)) [1..<13] \<noteq> []"
    by (simp add: upt_rec)
  ultimately have "c \<in> set ?idx"
    using union_indexes_member by blast
  then have "map_of (reindex (?S m) ?idx) c
      = Some (nanmean (map (\<lambda>(d, r). stat r c) (filter (\<lambda>(d, r). month d = m) (rows df))))"
    by (simp add: map_of_reindex each)
  with col show ?thesis by (simp add: cell_def)
qed

text \<open>
  Claim C2. For a statistic column and a month from 1 to 12, the cell of the averaged
  table is the arithmetic mean of the values of the bucket that are not missing, when
  there is one, and is missing when there is none. The values 10 and 20 of
  \<^verbatim>\<open>Mean Flow\<close>, in January of any two years, give 15 in column 1.
\<close>

theorem monthly_average_cell:
  assumes "m \<in> {1..12}" "c \<in> set (stat_columns df)"
  shows "(bucket df c m \<noteq> [] \<longrightarrow>
            cell (GetMonthlyAverages df) c m = Some (Some (arithmetic_mean (bucket df c m))))
     \<and> (bucket df c m = [] \<longrightarrow> cell (GetMonthlyAverages df) c m = Some None)
     \<and> cell (GetMonthlyAverages
          \<lparr>columns = [''Station'', ''Mean Flow''],
           rows = [((y1, 1, d1), \<lparr>Station = st, stat = [''Mean Flow'' \<mapsto> 10]\<rparr>),
                   ((y2, 1, d2), \<lparr>Station = st, stat = [''Mean Flow'' \<mapsto> 20]\<rparr>)]\<rparr>)
          ''Mean Flow'' 1 = Some (Some 15)"
proof -
  have general: "cell (GetMonthlyAverages t) k n
     = Some (if bucket t k n = [] then None else Some (arithmetic_mean (bucket t k n)))"
    if "n \<in> {1..12}" "k \<in> set (stat_columns t)" for t k n
    using cell_GetMonthlyAverages [OF that]
    by (simp add: nanmean_def bucket_def arithmetic_mean_def Let_def)
  let ?t = "\<lparr>columns = [''Station'', ''Mean Flow''],
           rows = [((y1, 1, d1), \<lparr>Station = st, stat = [''Mean Flow'' \<mapsto> 10]\<rparr>),
                   ((y2, 1, d2), \<lparr>Station = st, stat = [''Mean Flow'' \<mapsto> 20]\<rparr>)]\<rparr>"
  have b: "bucket ?t ''Mean Flow'' 1 = [10, 20]"
    by (simp add: bucket_def month_def)
  have "cell (GetMonthlyAverages ?t) ''Mean Flow'' 1
      = Some (if bucket ?t ''Mean Flow'' 1 = [] then None
              else Some (arithmetic_mean (bucket ?t ''Mean Flow'' 1)))"
    by (rule general) (simp_all add: stat_columns_def)
  then have scenario: "cell (GetMonthlyAverages ?t) ''Mean Flow'' 1 = Some (Some 15)"
    unfolding b by (simp add: arithmetic_mean_def)
  from general [OF assms] scenario show ?thesis by simp
qed

theorem monthly_average_cell_witness:
  "(3::nat) \<in> {1..12}
   \<and> ''Tqmean'' \<in> set (stat_columns \<lparr>columns = [''Station'', ''Mean Flow'', ''Tqmean''],
         rows = [((1970, 3, 31), \<lparr>Station = ''Tippe'', stat = [''Mean Flow'' \<mapsto> 8, ''Tqmean'' \<mapsto> 1]\<rparr>),
                 ((1970, 4, 30), \<lparr>Station = ''Tippe'', stat = [''Mean Flow'' \<mapsto> 9, ''Tqmean'' \<mapsto> 7]\<rparr>),
                 ((1971, 3, 31), \<lparr>Station = ''Tippe'', stat = [''Mean Flow'' \<mapsto> 4]\<rparr>),
                 ((1972, 3, 31), \<lparr>Station = ''Tippe'', stat = [''Mean Flow'' \<mapsto> 6, ''Tqmean'' \<mapsto> 2]\<rparr>)]\<rparr>)
   \<and> cell (GetMonthlyAverages
        \<lparr>columns = [''Station'', ''Mean Flow'', ''Tqmean''],
         rows = [((1970, 3, 31), \<lparr>Station = ''Tippe'', stat = [''Mean Flow'' \<mapsto> 8, ''Tqmean'' \<mapsto> 1]\<rparr>),
                 ((1970, 4, 30), \<lparr>Station = ''Tippe'', stat = [''Mean Flow'' \<mapsto> 9, ''Tqmean'' \<mapsto> 7]\<rparr>),
                 ((1971, 3, 31), \<lparr>Station = ''Tippe'', stat = [''Mean Flow'' \<mapsto> 4]\<rparr>),
                 ((1972, 3, 31), \<lparr>Station = ''Tippe'', stat = [''Mean Flow'' \<mapsto> 6, ''Tqmean'' \<mapsto> 2]\<rparr>)]\<rparr>)
        ''Tqmean'' 3 = Some (Some (3 / 2))"
proof -
  let ?t = "\<lparr>columns = [''Station'', ''Mean Flow'', ''Tqmean''],
         rows = [((1970, 3, 31), \<lparr>Station = ''Tippe'', stat = [''Mean Flow'' \<mapsto> 8, ''Tqmean'' \<mapsto> 1]\<rparr>),
                 ((1970, 4, 30), \<lparr>Station = ''Tippe'', stat = [''Mean Flow'' \<mapsto> 9, ''Tqmean'' \<mapsto> 7]\<rparr>),
                 ((1971, 3, 31), \<lparr>Station = ''Tippe'', stat = [''Mean Flow'' \<mapsto> 4]\<rparr>),
                 ((1972, 3, 31), \<lparr>Station = ''Tippe'', stat = [''Mean Flow'' \<mapsto> 6, ''Tqmean'' \<mapsto> 2]\<rparr>)]\<rparr>"
  have m: "(3::nat) \<in> {1..12}" by simp
  have c: "''Tqmean'' \<in> set (stat_columns ?t)" by (simp add: stat_columns_def)
  have b: "bucket ?t ''Tqmean'' 3 = [1, 2]"
    by (simp add: bucket_def month_def)
  from monthly_average_cell [OF m c] have
    "cell (GetMonthlyAverages ?t) ''Tqmean'' 3
       = Some (Some (arithmetic_mean (bucket ?t ''Tqmean'' 3)))"
    unfolding b by simp
  then have "cell (GetMonthlyAverages ?t) ''Tqmean'' 3 = Some (Some (3 / 2))"
    unfolding b by (simp add: arithmetic_mean_def)
  with m c show ?thesis by simp
qed

lemma labels_DataFrame: "map fst (DataFrame d) = map fst d"
  by (simp add: DataFrame_def Let_def case_prod_unfold o_def)

lemma union_indexes_same: "union_indexes (replicate (Suc n) c) = c"
  by (simp add: union_indexes_def list_all_iff)

lemma labels_reindex: "map fst (reindex s idx) = idx"
  by (simp add: reindex_def o_def)

lemma row_labels_all_months:
  assumes "\<forall>m \<in> {1..12}. \<exists>p \<in> set (rows df). month (fst p) = m"
  shows "map (\<lambda>col. map fst (snd col)) (GetMonthlyAverages df) = replicate 12 (stat_columns df)"
proof -
  let ?S = "\<lambda>m. mean_df (loc_mask df (month_mask (map fst (rows df)) m))"
  have lab: "map fst (?S k) = stat_columns df" if "k \<in> set [1..<13]" for k
  proof -
    from that have "k \<in> {1..12}" by auto
    with assms obtain p where "p \<in> set (rows df)" "month (fst p) = k" by blast
    then have "p \<in> set (filter (\<lambda>(d, r). month d = k) (rows df))"
      by (cases p) auto
    then have "filter (\<lambda>(d, r). month d = k) (rows df) \<noteq> []"
      by (metis length_pos_if_in_set length_greater_0_conv)
    then have "rows (loc_mask df (month_mask (map fst (rows df)) k)) \<noteq> []"
      by (simp only: rows_loc_mask not_False_eq_True)
    then show ?thesis
      by (simp add: labels_mean_df columns_loc_mask)
  qed
  have "map (\<lambda>k. map fst (?S k)) [1..<13] = map (\<lambda>k. stat_columns df) [1..<13]"
    by (rule map_cong) (simp_all add: lab)
  also have "\<dots> = replicate (Suc 11) (stat_columns df)"
    by (simp add: map_replicate_const)
  finally have idx: "union_indexes (map (\<lambda>k. map fst (?S k)) [1..<13]) = stat_columns df"
    by (simp only: union_indexes_same)
  have "GetMonthlyAverages df
      = map (\<lambda>k. (k, reindex (?S k) (stat_columns df))) [1..<13]"
    by (simp only: GetMonthlyAverages_eq DataFrame_tabulate idx)
  then have "map (\<lambda>col. map fst (snd col)) (GetMonthlyAverages df)
      = map (\<lambda>k. stat_columns df) [1..<13]"
    by (simp add: o_def labels_reindex)
  then show ?thesis
    by (simp add: map_replicate_const)
qed

text \<open>
  Claim C3, as amended. The averaged table has exactly the 12 columns labelled 1 to 12,
  in this order, whatever the rows of the input and their order; and when every month
  from 1 to 12 has at least one row in the input, every column has one entry for each
  statistic column of the input, in the order of the input.
\<close>

theorem monthly_average_shape:
  "map fst (GetMonthlyAverages df) = [1, 2, 3, 4, 5, 6, 7, 8, 9, 10, 11, 12]
   \<and> length (GetMonthlyAverages df) = 12
   \<and> (\<forall>rs. map fst (GetMonthlyAverages (df\<lparr>rows := rs\<rparr>))
             = map fst (GetMonthlyAverages df))
   \<and> ((\<forall>m \<in> {1..12}. \<exists>p \<in> set (rows df). month (fst p) = m)
        \<longrightarrow> map (\<lambda>col. map fst (snd col)) (GetMonthlyAverages df)
              = replicate 12 (stat_columns df))"
proof -
  have labels: "map fst (GetMonthlyAverages t) = [1, 2, 3, 4, 5, 6, 7, 8, 9, 10, 11, 12]" for t
    by (simp add: GetMonthlyAverages_def Let_def labels_DataFrame)
  have len: "length (GetMonthlyAverages df) = 12"
    by (simp add: GetMonthlyAverages_def Let_def DataFrame_def)
  from labels len row_labels_all_months show ?thesis by simp
qed

theorem monthly_average_shape_witness:
  "map fst (GetMonthlyAverages
      \<lparr>columns = [''Station'', ''Mean Flow'', ''Tqmean''],
       rows = [((2000, 1, 31), \<lparr>Station = ''Tippe'', stat = [''Mean Flow'' \<mapsto> 4]\<rparr>),
               ((2000, 2, 29), \<lparr>Station = ''Tippe'', stat = [''Mean Flow'' \<mapsto> 8]\<rparr>),
               ((2000, 4, 30), \<lparr>Station = ''Tippe'', stat = [''Mean Flow'' \<mapsto> 8]\<rparr>),
               ((2000, 3, 31), \<lparr>Station = ''Tippe'', stat = [''Mean Flow'' \<mapsto> 8]\<rparr>),
               ((2000, 5, 31), \<lparr>Station = ''Tippe'', stat = [''Mean Flow'' \<mapsto> 8]\<rparr>),
               ((2000, 6, 30), \<lparr>Station = ''Tippe'', stat = [''Mean Flow'' \<mapsto> 8]\<rparr>),
               ((2000, 7, 31), \<lparr>Station = ''Tippe'', stat = [''Mean Flow'' \<mapsto> 8]\<rparr>),
               ((2000, 8, 31), \<lparr>Station = ''Tippe'', stat = [''Mean Flow'' \<mapsto> 8]\<rparr>),
               ((2000, 9, 30), \<lparr>Station = ''Tippe'', stat = [''Mean Flow'' \<mapsto> 8]\<rparr>),
               ((2000, 10, 31), \<lparr>Station = ''Tippe'', stat = [''Mean Flow'' \<mapsto> 8]\<rparr>),
               ((2000, 11, 30), \<lparr>Station = ''Tippe'', stat = [''Mean Flow'' \<mapsto> 8]\<rparr>),
               ((2000, 12, 31), \<lparr>Station = ''Tippe'', stat = [''Mean Flow'' \<mapsto> 8]\<rparr>)]\<rparr>)
     = [1, 2, 3, 4, 5, 6, 7, 8, 9, 10, 11, 12]
   \<and> map (\<lambda>col. map fst (snd col)) (GetMonthlyAverages
      \<lparr>columns = [''Station'', ''Mean Flow'', ''Tqmean''],
       rows = [((2000, 1, 31), \<lparr>Station = ''Tippe'', stat = [''Mean Flow'' \<mapsto> 4]\<rparr>),
               ((2000, 2, 29), \<lparr>Station = ''Tippe'', stat = [''Mean Flow'' \<mapsto> 8]\<rparr>),
               ((2000, 4, 30), \<lparr>Station = ''Tippe'', stat = [''Mean Flow'' \<mapsto> 8]\<rparr>),
               ((2000, 3, 31), \<lparr>Station = ''Tippe'', stat = [''Mean Flow'' \<mapsto> 8]\<rparr>),
               ((2000, 5, 31), \<lparr>Station = ''Tippe'', stat = [''Mean Flow'' \<mapsto> 8]\<rparr>),
               ((2000, 6, 30), \<lparr>Station = ''Tippe'', stat = [''Mean Flow'' \<mapsto> 8]\<rparr>),
               ((2000, 7, 31), \<lparr>Station = ''Tippe'', stat = [''Mean Flow'' \<mapsto> 8]\<rparr>),
               ((2000, 8, 31), \<lparr>Station = ''Tippe'', stat = [''Mean Flow'' \<mapsto> 8]\<rparr>),
               ((2000, 9, 30), \<lparr>Station = ''Tippe'', stat = [''Mean Flow'' \<mapsto> 8]\<rparr>),
               ((2000, 10, 31), \<lparr>Station = ''Tippe'', stat = [''Mean Flow'' \<mapsto> 8]\<rparr>),
               ((2000, 11, 30), \<lparr>Station = ''Tippe'', stat = [''Mean Flow'' \<mapsto> 8]\<rparr>),
               ((2000, 12, 31), \<lparr>Station = ''Tippe'', stat = [''Mean Flow'' \<mapsto> 8]\<rparr>)]\<rparr>)
     = replicate 12 [''Mean Flow'', ''Tqmean'']"
proof -
  let ?t = "\<lparr>columns = [''Station'', ''Mean Flow'', ''Tqmean''],
       rows = [((2000, 1, 31), \<lparr>Station = ''Tippe'', stat = [''Mean Flow'' \<mapsto> 4]\<rparr>),
               ((2000, 2, 29), \<lparr>Station = ''Tippe'', stat = [''Mean Flow'' \<mapsto> 8]\<rparr>),
               ((2000, 4, 30), \<lparr>Station = ''Tippe'', stat = [''Mean Flow'' \<mapsto> 8]\<rparr>),
               ((2000, 3, 31), \<lparr>Station = ''Tippe'', stat = [''Mean Flow'' \<mapsto> 8]\<rparr>),
               ((2000, 5, 31), \<lparr>Station = ''Tippe'', stat = [''Mean Flow'' \<mapsto> 8]\<rparr>),
               ((2000, 6, 30), \<lparr>Station = ''Tippe'', stat = [''Mean Flow'' \<mapsto> 8]\<rparr>),
               ((2000, 7, 31), \<lparr>Station = ''Tippe'', stat = [''Mean Flow'' \<mapsto> 8]\<rparr>),
               ((2000, 8, 31), \<lparr>Station = ''Tippe'', stat = [''Mean Flow'' \<mapsto> 8]\<rparr>),
               ((2000, 9, 30), \<lparr>Station = ''Tippe'', stat = [''Mean Flow'' \<mapsto> 8]\<rparr>),
               ((2000, 10, 31), \<lparr>Station = ''Tippe'', stat = [''Mean Flow'' \<mapsto> 8]\<rparr>),
               ((2000, 11, 30), \<lparr>Station = ''Tippe'', stat = [''Mean Flow'' \<mapsto> 8]\<rparr>),
               ((2000, 12, 31), \<lparr>Station = ''Tippe'', stat = [''Mean Flow'' \<mapsto> 8]\<rparr>)]\<rparr>"
  have iv: "{1..12::nat} = set [1..<13]" by auto
  have h: "\<forall>m \<in> {1..12}. \<exists>p \<in> set (rows ?t). month (fst p) = m"
    unfolding iv by (simp add: upt_rec month_def)
  have c: "stat_columns ?t = [''Mean Flow'', ''Tqmean'']"
    by (simp add: stat_columns_def)
  from monthly_average_shape [of ?t] h show ?thesis
    unfolding c by blast
qed

text \<open>
  The claim as it was stated, one row per statistic column for every table, fails when a
  month has no row: the mean of the empty selection keeps the text column, and the row
  labels of the table become the sorted labels of all series. Here the table has the
  statistics \<^verbatim>\<open>Mean Flow\<close> and \<^verbatim>\<open>Tqmean\<close> and rows in March and December
  only, and the averaged table has a third row, \<^verbatim>\<open>Station\<close>.
\<close>

theorem monthly_average_shape_counterexample:
  "map fst (snd (GetMonthlyAverages
      \<lparr>columns = [''Station'', ''Mean Flow'', ''Tqmean''],
       rows = [((1971, 12, 31), \<lparr>Station = ''Tippe'', stat = [''Mean Flow'' \<mapsto> 4]\<rparr>),
               ((1970, 3, 31), \<lparr>Station = ''Tippe'', stat = [''Mean Flow'' \<mapsto> 8]\<rparr>)]\<rparr> ! 0))
     = [''Mean Flow'', ''Station'', ''Tqmean'']
   \<and> stat_columns
      \<lparr>columns = [''Station'', ''Mean Flow'', ''Tqmean''],
       rows = [((1971, 12, 31), \<lparr>Station = ''Tippe'', stat = [''Mean Flow'' \<mapsto> 4]\<rparr>),
               ((1970, 3, 31), \<lparr>Station = ''Tippe'', stat = [''Mean Flow'' \<mapsto> 8]\<rparr>)]\<rparr>
     = [''Mean Flow'', ''Tqmean'']"
  by (simp add: GetMonthlyAverages_def DataFrame_def union_indexes_def reindex_def mean_df_def
      loc_mask_def month_mask_def month_def stat_columns_def Let_def upt_rec)

section \<open>Properties of the chart renderer\<close>

text \<open>
  Claim C8. Starting with no file written, a complete run writes six files, with the
  six names below, each one at 96 DPI from a figure of size 9 by 6.5 with the font size
  20, and nothing else.
\<close>

theorem charts_written:
  assumes "written s0 = []"
  shows "written (main_charts s0)
     = map (\<lambda>name. \<lparr>file_name = name, dpi = 96, figsize = (9, 6.5), font_size = 20\<rparr>)
         [''DailyDischarge5Year.png'', ''AnnualCoeffVar.png'', ''AnnualTQmean.png'',
          ''AnnualRBindex.png'', ''MonthlyMeanFlow.png'', ''ExceedanceProbability.png'']
     \<and> length (written (main_charts s0)) = 6
     \<and> distinct (map file_name (written (main_charts s0)))"
  using assms
  by (simp add: main_charts_def rcParams_update_def figure_def savefig_def)

theorem charts_written_witness:
  "written \<lparr>rc_font_size = 10, current_figsize = (6.4, 4.8), written = []\<rparr> = []
   \<and> map file_name
       (written (main_charts \<lparr>rc_font_size = 10, current_figsize = (6.4, 4.8), written = []\<rparr>))
     = [''DailyDischarge5Year.png'', ''AnnualCoeffVar.png'', ''AnnualTQmean.png'',
        ''AnnualRBindex.png'', ''MonthlyMeanFlow.png'', ''ExceedanceProbability.png'']"
proof -
  have h: "written \<lparr>rc_font_size = 10, current_figsize = (6.4, 4.8), written = []\<rparr> = []"
    by simp
  from charts_written [OF h] h show ?thesis by simp
qed

end
